theory Spec2Isabelle
  imports Main
begin

section \<open>Data model\<close>

text \<open>
  The in-memory blob descriptor cache of \<^verbatim>\<open>registry/storage/cache/memory.go\<close>.
  A digest is a Go string (\<^verbatim>\<open>type Digest string\<close>); a descriptor is the struct
  \<^verbatim>\<open>distribution.Descriptor\<close>, which the cache stores and returns whole.
\<close>

type_synonym digest = string

record descriptor =
  MediaType :: string
  Size :: int
  Digest :: digest

text \<open>
  The error values the cache can hand to a caller: \<^verbatim>\<open>distribution.ErrBlobUnknown\<close> and the
  three validation failures. \<open>Panic\<close> stands for a call of \<^verbatim>\<open>Digest.Algorithm\<close> that
  aborts instead of returning.
\<close>

datatype error =
  ErrBlobUnknown
| ErrInvalidDigest
| ErrInvalidDescriptor
| ErrInvalidRepositoryName
| Panic

text \<open>
  The packages \<^verbatim>\<open>digest\<close> and \<^verbatim>\<open>registry/api/v2\<close> and the file that declares
  \<^verbatim>\<open>validateDigest\<close> and \<^verbatim>\<open>validateDescriptor\<close> are not part of \<^verbatim>\<open>memory.go\<close>.
  What they decide is a parameter of the model: which digests, descriptors and repository
  names are well formed, and the algorithm of a digest (\<open>None\<close> when
  \<^verbatim>\<open>Digest.Algorithm\<close> does not return).
\<close>

record validators =
  digest_ok :: "digest \<Rightarrow> bool"
  descriptor_ok :: "descriptor \<Rightarrow> bool"
  repository_name_ok :: "string \<Rightarrow> bool"
  Algorithm :: "digest \<Rightarrow> string option"

text \<open>
  Modelled from the spec: \<^verbatim>\<open>validateDigest\<close> is declared outside \<^verbatim>\<open>memory.go\<close>.
  A digest that fails format validation is refused with \<open>InvalidDigest\<close>.
\<close>

definition validateDigest :: "validators \<Rightarrow> digest \<Rightarrow> error option" where
  "validateDigest vs dgst = (if digest_ok vs dgst then None else Some ErrInvalidDigest)"

text \<open>
  Modelled from the spec: \<^verbatim>\<open>validateDescriptor\<close> is declared outside \<^verbatim>\<open>memory.go\<close>.
  Descriptor validation at minimum checks that the descriptor's own digest is well
  formed; a descriptor that fails is refused with \<open>InvalidDescriptor\<close>.
\<close>

definition validateDescriptor :: "validators \<Rightarrow> descriptor \<Rightarrow> error option" where
  "validateDescriptor vs desc =
     (if digest_ok vs (Digest desc) \<and> descriptor_ok vs desc then None
      else Some ErrInvalidDescriptor)"

text \<open>
  Modelled from the spec: \<^verbatim>\<open>v2.ValidateRepositoryName\<close> is declared outside
  \<^verbatim>\<open>memory.go\<close>. A name that fails namespace validation is refused with
  \<open>InvalidRepositoryName\<close>.
\<close>

definition ValidateRepositoryName :: "validators \<Rightarrow> string \<Rightarrow> error option" where
  "ValidateRepositoryName vs name =
     (if repository_name_ok vs name then None else Some ErrInvalidRepositoryName)"

section \<open>The map-based cache\<close>

text \<open>
  \<^verbatim>\<open>mapBlobDescriptorCache\<close>: the field \<^verbatim>\<open>descriptors\<close>, a Go map from digest to
  descriptor. The mutex is left out: every method holds it from entry to exit.
\<close>

type_synonym mapBlobDescriptorCache = "digest \<rightharpoonup> descriptor"

definition newMapBlobDescriptorCache :: mapBlobDescriptorCache where
  "newMapBlobDescriptorCache = Map.empty"

definition mbdc_Stat ::
  "validators \<Rightarrow> mapBlobDescriptorCache \<Rightarrow> digest \<Rightarrow> error + descriptor" where
  "mbdc_Stat vs mbdc dgst =
     (case validateDigest vs dgst of
        Some err \<Rightarrow> Inl err
      | None \<Rightarrow>
          (case mbdc dgst of
             None \<Rightarrow> Inl ErrBlobUnknown
           | Some desc \<Rightarrow> Inr desc))"

definition mbdc_SetDescriptor ::
  "validators \<Rightarrow> mapBlobDescriptorCache \<Rightarrow> digest \<Rightarrow> descriptor
     \<Rightarrow> error option \<times> mapBlobDescriptorCache" where
  "mbdc_SetDescriptor vs mbdc dgst desc =
     (case validateDigest vs dgst of
        Some err \<Rightarrow> (Some err, mbdc)
      | None \<Rightarrow>
          (case validateDescriptor vs desc of
             Some err \<Rightarrow> (Some err, mbdc)
           | None \<Rightarrow> (None, mbdc(dgst \<mapsto> desc))))"

section \<open>The provider and the store of caches\<close>

text \<open>
  The provider and the repository-scoped views hold pointers to
  \<^verbatim>\<open>mapBlobDescriptorCache\<close> objects, and several views may point to the same one. The
  model keeps these objects in an explicit store: \<open>heap\<close> maps an address to the cache
  that lives there and \<open>next_free\<close> is the address the next allocation returns. The
  fields \<open>global\<close> and \<open>repositories\<close> are those of
  \<^verbatim>\<open>inMemoryBlobDescriptorCacheProvider\<close>; there is one provider.
\<close>

type_synonym addr = nat

record imbdcp_state =
  heap :: "addr \<Rightarrow> mapBlobDescriptorCache"
  next_free :: addr
  global :: addr
  repositories :: "string \<rightharpoonup> addr"

definition NewInMemoryBlobDescriptorCacheProvider :: imbdcp_state where
  "NewInMemoryBlobDescriptorCacheProvider =
     \<lparr>heap = (\<lambda>_. Map.empty)(0 := newMapBlobDescriptorCache),
      next_free = 1,
      global = 0,
      repositories = Map.empty\<rparr>"

text \<open>The two methods of a cache, called through a pointer \<open>a\<close> into the store.\<close>

definition cache_Stat ::
  "validators \<Rightarrow> imbdcp_state \<Rightarrow> addr \<Rightarrow> digest \<Rightarrow> error + descriptor" where
  "cache_Stat vs s a dgst = mbdc_Stat vs (heap s a) dgst"

definition cache_SetDescriptor ::
  "validators \<Rightarrow> imbdcp_state \<Rightarrow> addr \<Rightarrow> digest \<Rightarrow> descriptor
     \<Rightarrow> error option \<times> imbdcp_state" where
  "cache_SetDescriptor vs s a dgst desc =
     (case mbdc_SetDescriptor vs (heap s a) dgst desc of
        (err, m) \<Rightarrow> (err, s\<lparr>heap := (heap s)(a := m)\<rparr>))"

definition imbdcp_Stat :: "validators \<Rightarrow> imbdcp_state \<Rightarrow> digest \<Rightarrow> error + descriptor" where
  "imbdcp_Stat vs s dgst = cache_Stat vs s (global s) dgst"

text \<open>
  \<^verbatim>\<open>inMemoryBlobDescriptorCacheProvider.SetDescriptor\<close>. Both operands of the first
  \<^verbatim>\<open>!=\<close> are evaluated before the \<^verbatim>\<open>&&\<close>.
\<close>

definition imbdcp_SetDescriptor ::
  "validators \<Rightarrow> imbdcp_state \<Rightarrow> digest \<Rightarrow> descriptor \<Rightarrow> error option \<times> imbdcp_state" where
  "imbdcp_SetDescriptor vs s dgst desc =
     (case imbdcp_Stat vs s dgst of
        Inr _ \<Rightarrow> (None, s)
      | Inl err \<Rightarrow>
          if err = ErrBlobUnknown then
            (case Algorithm vs dgst of
               None \<Rightarrow> (Some Panic, s)
             | Some alg1 \<Rightarrow>
                 (case Algorithm vs (Digest desc) of
                    None \<Rightarrow> (Some Panic, s)
                  | Some alg2 \<Rightarrow>
                      if alg1 \<noteq> alg2 \<and> dgst \<noteq> Digest desc then
                        (case cache_SetDescriptor vs s (global s) (Digest desc) desc of
                           (Some err', s') \<Rightarrow> (Some err', s')
                         | (None, s') \<Rightarrow> cache_SetDescriptor vs s' (global s) dgst desc)
                      else cache_SetDescriptor vs s (global s) dgst desc))
          else (Some err, s))"

section \<open>Repository-scoped views\<close>

text \<open>
  \<^verbatim>\<open>repositoryScopedInMemoryBlobDescriptorCache\<close>: the repository name and the pointer
  to the repository's cache, \<open>None\<close> for \<^verbatim>\<open>nil\<close>. The field \<^verbatim>\<open>parent\<close> points to
  the one provider.
\<close>

record rsimbdcp =
  repo :: string
  repository :: "addr option"

definition RepositoryScoped ::
  "validators \<Rightarrow> imbdcp_state \<Rightarrow> string \<Rightarrow> error + rsimbdcp" where
  "RepositoryScoped vs s name =
     (case ValidateRepositoryName vs name of
        Some err \<Rightarrow> Inl err
      | None \<Rightarrow> Inr \<lparr>repo = name, repository = repositories s name\<rparr>)"

definition rsimbdcp_Stat ::
  "validators \<Rightarrow> imbdcp_state \<Rightarrow> rsimbdcp \<Rightarrow> digest \<Rightarrow> error + descriptor" where
  "rsimbdcp_Stat vs s w dgst =
     (case repository w of
        None \<Rightarrow> Inl ErrBlobUnknown
      | Some a \<Rightarrow> cache_Stat vs s a dgst)"

text \<open>
  The first block of the view's \<^verbatim>\<open>SetDescriptor\<close>: when the view's pointer is
  \<^verbatim>\<open>nil\<close>, read the provider's table back and allocate and register a cache if the
  table has none. It returns the address the view now points to, the view and the store.
\<close>

definition bind_repository ::
  "imbdcp_state \<Rightarrow> rsimbdcp \<Rightarrow> addr \<times> rsimbdcp \<times> imbdcp_state" where
  "bind_repository s w =
     (case repository w of
        Some a \<Rightarrow> (a, w, s)
      | None \<Rightarrow>
          (case repositories s (repo w) of
             Some a \<Rightarrow> (a, w\<lparr>repository := Some a\<rparr>, s)
           | None \<Rightarrow>
               (next_free s,
                w\<lparr>repository := Some (next_free s)\<rparr>,
                s\<lparr>heap := (heap s)(next_free s := newMapBlobDescriptorCache),
                  next_free := Suc (next_free s),
                  repositories := (repositories s)(repo w \<mapsto> next_free s)\<rparr>)))"

definition rsimbdcp_SetDescriptor ::
  "validators \<Rightarrow> imbdcp_state \<Rightarrow> rsimbdcp \<Rightarrow> digest \<Rightarrow> descriptor
     \<Rightarrow> error option \<times> rsimbdcp \<times> imbdcp_state" where
  "rsimbdcp_SetDescriptor vs s w dgst desc =
     (case bind_repository s w of
        (a, w1, s1) \<Rightarrow>
          (case cache_SetDescriptor vs s1 a dgst desc of
             (Some err, s2) \<Rightarrow> (Some err, w1, s2)
           | (None, s2) \<Rightarrow>
               (case imbdcp_SetDescriptor vs s2 dgst desc of
                  (r, s3) \<Rightarrow> (r, w1, s3))))"

section \<open>Sequences of calls\<close>

text \<open>
  A caller holds the provider and the views it has obtained. A system state is the store
  together with the views handed out so far, in order; an operation is one call of the
  public interface, a view being named by its position. An operation on a position that
  names no view leaves the state as it is. \<open>Stat\<close> changes nothing in either scope.
\<close>

record system =
  provider :: imbdcp_state
  views :: "rsimbdcp list"

datatype op =
  OpRepositoryScoped string
| OpStat digest
| OpSetDescriptor digest descriptor
| OpViewStat nat digest
| OpViewSetDescriptor nat digest descriptor

fun step :: "validators \<Rightarrow> system \<Rightarrow> op \<Rightarrow> system" where
  "step vs sys (OpRepositoryScoped name) =
     (case RepositoryScoped vs (provider sys) name of
        Inl err \<Rightarrow> sys
      | Inr w \<Rightarrow> sys\<lparr>views := views sys @ [w]\<rparr>)"
| "step vs sys (OpStat dgst) = sys"
| "step vs sys (OpSetDescriptor dgst desc) =
     sys\<lparr>provider := snd (imbdcp_SetDescriptor vs (provider sys) dgst desc)\<rparr>"
| "step vs sys (OpViewStat i dgst) = sys"
| "step vs sys (OpViewSetDescriptor i dgst desc) =
     (if i < length (views sys) then
        (case rsimbdcp_SetDescriptor vs (provider sys) (views sys ! i) dgst desc of
           (r, w', s') \<Rightarrow> \<lparr>provider = s', views = (views sys)[i := w']\<rparr>)
      else sys)"

definition initial :: system where
  "initial = \<lparr>provider = NewInMemoryBlobDescriptorCacheProvider, views = []\<rparr>"

definition run :: "validators \<Rightarrow> op list \<Rightarrow> system" where
  "run vs ops = foldl (step vs) initial ops"

section \<open>A concrete instance of the parameters\<close>

text \<open>
  An instance used to evaluate the model on sample inputs: a digest is well formed when
  it reads \<open>algorithm:value\<close> with both parts non-empty, the algorithm is the text
  before the first colon, a descriptor needs a size that is not negative and a media
  type, and a repository name must not be empty.
\<close>

definition sample_Algorithm :: "digest \<Rightarrow> string option" where
  "sample_Algorithm d =
     (if CHR '':'' \<in> set d then Some (takeWhile (\<lambda>c. c \<noteq> CHR '':'') d) else None)"

definition sample_digest_ok :: "digest \<Rightarrow> bool" where
  "sample_digest_ok d =
     (case sample_Algorithm d of
        None \<Rightarrow> False
      | Some alg \<Rightarrow> alg \<noteq> [] \<and> Suc (length alg) < length d)"

definition sample_validators :: validators where
  "sample_validators =
     \<lparr>digest_ok = sample_digest_ok,
      descriptor_ok = (\<lambda>desc. 0 \<le> Size desc \<and> MediaType desc \<noteq> []),
      repository_name_ok = (\<lambda>name. name \<noteq> []),
      Algorithm = sample_Algorithm\<rparr>"

definition blob :: "digest \<Rightarrow> int \<Rightarrow> descriptor" where
  "blob d n = \<lparr>MediaType = ''application/octet-stream'', Size = n, Digest = d\<rparr>"

section \<open>Well-formed stores\<close>

text \<open>
  What every store built by the constructor and the public calls satisfies: the global
  cache and the repositories' caches are allocated, the global cache is in no
  repository's slot, and no two repositories share a cache. A view is consistent with
  the store when its pointer, if set, is the one the table holds for its repository.
\<close>

definition wf_store :: "imbdcp_state \<Rightarrow> bool" where
  "wf_store s \<longleftrightarrow>
     global s < next_free s
     \<and> (\<forall>name a. repositories s name = Some a \<longrightarrow> a < next_free s \<and> a \<noteq> global s)
     \<and> (\<forall>n1 n2 a. repositories s n1 = Some a \<longrightarrow> repositories s n2 = Some a \<longrightarrow> n1 = n2)"

definition view_ok :: "imbdcp_state \<Rightarrow> rsimbdcp \<Rightarrow> bool" where
  "view_ok s w \<longleftrightarrow> (\<forall>a. repository w = Some a \<longrightarrow> repositories s (repo w) = Some a)"

definition wf_system :: "system \<Rightarrow> bool" where
  "wf_system sys \<longleftrightarrow>
     wf_store (provider sys) \<and> (\<forall>w \<in> set (views sys). view_ok (provider sys) w)"


section \<open>Predicates used in the properties\<close>

text \<open>
  A repository has never been written to when the provider holds no cache for it, or an
  empty one.
\<close>

definition never_written :: "imbdcp_state \<Rightarrow> string \<Rightarrow> bool" where
  "never_written s name =
     (case repositories s name of None \<Rightarrow> True | Some a \<Rightarrow> heap s a = Map.empty)"

text \<open>
  The same, read off a history: no \<^verbatim>\<open>SetDescriptor\<close> call of the history was made
  on a view of the repository.
\<close>

fun writes_to :: "system \<Rightarrow> op \<Rightarrow> string \<Rightarrow> bool" where
  "writes_to sys (OpViewSetDescriptor i dgst desc) name =
     (i < length (views sys) \<and> repo (views sys ! i) = name)"
| "writes_to sys _ name = False"

fun never_targeted :: "validators \<Rightarrow> system \<Rightarrow> op list \<Rightarrow> string \<Rightarrow> bool" where
  "never_targeted vs sys [] name = True"
| "never_targeted vs sys (op # ops) name =
     (\<not> writes_to sys op name \<and> never_targeted vs (step vs sys op) ops name)"

text \<open>
  The invariant of C4 for one entry and for one cache: a value whose digest has the
  algorithm of its key has the key as its digest. An operation respects it when the
  digest and descriptor it passes to \<^verbatim>\<open>SetDescriptor\<close> satisfy it.
\<close>

definition same_algorithm_ok :: "validators \<Rightarrow> digest \<Rightarrow> descriptor \<Rightarrow> bool" where
  "same_algorithm_ok vs k v \<longleftrightarrow> (Algorithm vs (Digest v) = Algorithm vs k \<longrightarrow> Digest v = k)"

definition cache_invariant :: "validators \<Rightarrow> mapBlobDescriptorCache \<Rightarrow> bool" where
  "cache_invariant vs m \<longleftrightarrow> (\<forall>k v. m k = Some v \<longrightarrow> same_algorithm_ok vs k v)"

fun op_respects :: "validators \<Rightarrow> op \<Rightarrow> bool" where
  "op_respects vs (OpSetDescriptor d v) = same_algorithm_ok vs d v"
| "op_respects vs (OpViewSetDescriptor i d v) = same_algorithm_ok vs d v"
| "op_respects vs _ = True"

text \<open>
  A sample history: two views are obtained on a fresh provider, for two repositories,
  and the first one stores a descriptor.
\<close>

definition sample_history :: "op list" where
  "sample_history =
     [OpRepositoryScoped ''foo/bar'',
      OpRepositoryScoped ''foo/baz'',
      OpViewSetDescriptor 0 ''sha256:aa'' (blob ''sha256:aa'' 1)]"

section \<open>Basic facts about the calls\<close>

lemma cache_Stat_eq:
  "cache_Stat vs s a d =
     (if \<not> digest_ok vs d then Inl ErrInvalidDigest
      else case heap s a d of None \<Rightarrow> Inl ErrBlobUnknown | Some v \<Rightarrow> Inr v)"
  by (simp add: cache_Stat_def mbdc_Stat_def validateDigest_def)

lemma cache_SetDescriptor_eq:
  "cache_SetDescriptor vs s a d v =
     (if \<not> digest_ok vs d then (Some ErrInvalidDigest, s)
      else if \<not> (digest_ok vs (Digest v) \<and> descriptor_ok vs v) then (Some ErrInvalidDescriptor, s)
      else (None, s\<lparr>heap := (heap s)(a := (heap s a)(d \<mapsto> v))\<rparr>))"
  by (simp add: cache_SetDescriptor_def mbdc_SetDescriptor_def validateDigest_def
      validateDescriptor_def)

lemma imbdcp_Stat_eq:
  "imbdcp_Stat vs s d =
     (if \<not> digest_ok vs d then Inl ErrInvalidDigest
      else case heap s (global s) d of None \<Rightarrow> Inl ErrBlobUnknown | Some v \<Rightarrow> Inr v)"
  by (simp add: imbdcp_Stat_def cache_Stat_eq)

lemma cache_SetDescriptor_frame:
  assumes "cache_SetDescriptor vs s a d v = (r, s')"
  shows "next_free s' = next_free s" and "global s' = global s"
    and "repositories s' = repositories s" and "b \<noteq> a \<Longrightarrow> heap s' b = heap s b"
  using assms by (auto simp: cache_SetDescriptor_eq split: if_splits)

lemma imbdcp_SetDescriptor_frame:
  assumes "imbdcp_SetDescriptor vs s d v = (r, s')"
  shows "next_free s' = next_free s" and "global s' = global s"
    and "repositories s' = repositories s" and "b \<noteq> global s \<Longrightarrow> heap s' b = heap s b"
  using assms
  by (auto simp: imbdcp_SetDescriptor_def cache_SetDescriptor_eq
      split: if_splits option.splits sum.splits)

lemma wf_store_frame:
  assumes "wf_store s" and "next_free s' = next_free s" and "global s' = global s"
    and "repositories s' = repositories s"
  shows "wf_store s'"
  using assms by (simp add: wf_store_def)

lemma view_ok_frame:
  assumes "view_ok s w" and "repositories s' = repositories s"
  shows "view_ok s' w"
  using assms by (simp add: view_ok_def)

lemma bind_repository_bound:
  assumes "bind_repository s w = (a, w1, s1)"
  shows "repository w1 = Some a" and "repo w1 = repo w"
  using assms by (auto simp: bind_repository_def split: option.splits)

lemma bind_repository_store:
  assumes "bind_repository s w = (a, w1, s1)"
  shows "global s1 = global s"
    and "repositories s n = Some b \<Longrightarrow> repositories s1 n = Some b"
    and "n \<noteq> repo w \<Longrightarrow> repositories s1 n = repositories s n"
    and "b \<noteq> next_free s \<Longrightarrow> heap s1 b = heap s b"
  using assms by (auto simp: bind_repository_def split: option.splits)

lemma wf_storeD:
  assumes "wf_store s" and "repositories s n = Some a"
  shows "a < next_free s" and "a \<noteq> global s"
  using assms by (auto simp: wf_store_def)

lemma wf_store_inj:
  assumes "wf_store s" and "repositories s n1 = Some a" and "repositories s n2 = Some a"
  shows "n1 = n2"
  using assms unfolding wf_store_def by blast

lemma wf_store_alloc:
  assumes "wf_store s" and "repositories s name = None"
  shows "wf_store (s\<lparr>heap := h, next_free := Suc (next_free s),
           repositories := (repositories s)(name \<mapsto> next_free s)\<rparr>)"
proof -
  have g: "global s < next_free s"
    using assms(1) by (simp add: wf_store_def)
  have lt: "a < next_free s" and ng: "a \<noteq> global s" if "repositories s n = Some a" for n a
    using wf_storeD [OF assms(1) that] by simp_all
  have inj: "n1 = n2" if "repositories s n1 = Some a" and "repositories s n2 = Some a" for n1 n2 a
    using wf_store_inj [OF assms(1) that] .
  show ?thesis
    unfolding wf_store_def
  proof (intro conjI allI impI)
    show "global (s\<lparr>heap := h, next_free := Suc (next_free s),
           repositories := (repositories s)(name \<mapsto> next_free s)\<rparr>)
        < next_free (s\<lparr>heap := h, next_free := Suc (next_free s),
           repositories := (repositories s)(name \<mapsto> next_free s)\<rparr>)"
      using g by simp
  next
    fix n a
    assume "repositories (s\<lparr>heap := h, next_free := Suc (next_free s),
           repositories := (repositories s)(name \<mapsto> next_free s)\<rparr>) n = Some a"
    then have "a = next_free s \<or> repositories s n = Some a"
      by (simp split: if_splits)
    then show "a < next_free (s\<lparr>heap := h, next_free := Suc (next_free s),
           repositories := (repositories s)(name \<mapsto> next_free s)\<rparr>)"
      and "a \<noteq> global (s\<lparr>heap := h, next_free := Suc (next_free s),
           repositories := (repositories s)(name \<mapsto> next_free s)\<rparr>)"
      using lt ng g by (auto simp: less_Suc_eq)
  next
    fix n1 n2 a
    assume "repositories (s\<lparr>heap := h, next_free := Suc (next_free s),
           repositories := (repositories s)(name \<mapsto> next_free s)\<rparr>) n1 = Some a"
      and "repositories (s\<lparr>heap := h, next_free := Suc (next_free s),
           repositories := (repositories s)(name \<mapsto> next_free s)\<rparr>) n2 = Some a"
    then show "n1 = n2"
      using lt inj by (auto split: if_splits)
  qed
qed

lemma bind_repository_wf:
  assumes "bind_repository s w = (a, w1, s1)" and "wf_store s" and "view_ok s w"
  shows "wf_store s1" and "view_ok s1 w1" and "repositories s1 (repo w) = Some a"
    and "a \<noteq> global s"
proof -
  show "wf_store s1"
    using assms wf_store_alloc [OF assms(2)]
    by (auto simp: bind_repository_def split: option.splits)
  show "view_ok s1 w1" and r: "repositories s1 (repo w) = Some a"
    using assms
    by (auto simp: bind_repository_def view_ok_def split: option.splits)
  show "a \<noteq> global s"
    using assms wf_storeD [OF assms(2)]
    by (auto simp: bind_repository_def view_ok_def wf_store_def split: option.splits)
qed

lemma bind_repository_view_ok:
  assumes "bind_repository s w = (a, w1, s1)" and "view_ok s w2"
  shows "view_ok s1 w2"
  using assms bind_repository_store(2) [OF assms(1)]
  by (auto simp: view_ok_def)


lemma rsimbdcp_SetDescriptorE:
  assumes "rsimbdcp_SetDescriptor vs s w d v = (r, w', s')"
  obtains a s1 r1 s2 where "bind_repository s w = (a, w', s1)"
    and "cache_SetDescriptor vs s1 a d v = (r1, s2)"
    and "(r1 \<noteq> None \<and> r = r1 \<and> s' = s2)
         \<or> (r1 = None \<and> imbdcp_SetDescriptor vs s2 d v = (r, s'))"
  using assms
  by (auto simp: rsimbdcp_SetDescriptor_def split: prod.splits option.splits)

lemma rsimbdcp_SetDescriptor_frame:
  assumes "rsimbdcp_SetDescriptor vs s w d v = (r, w', s')"
  shows "global s' = global s" and "repo w' = repo w"
    and "repositories s n = Some b \<Longrightarrow> repositories s' n = Some b"
    and "n \<noteq> repo w \<Longrightarrow> repositories s' n = repositories s n"
    and "\<exists>a. repository w' = Some a"
proof -
  from assms obtain a s1 r1 s2 where b: "bind_repository s w = (a, w', s1)"
    and c: "cache_SetDescriptor vs s1 a d v = (r1, s2)"
    and p: "(r1 \<noteq> None \<and> r = r1 \<and> s' = s2)
         \<or> (r1 = None \<and> imbdcp_SetDescriptor vs s2 d v = (r, s'))"
    by (rule rsimbdcp_SetDescriptorE)
  have g: "global s' = global s2" and t: "repositories s' = repositories s2"
    using p imbdcp_SetDescriptor_frame [of vs s2 d v r s'] by auto
  show "global s' = global s"
    using g cache_SetDescriptor_frame(2) [OF c] bind_repository_store(1) [OF b] by simp
  show "repo w' = repo w"
    using bind_repository_bound(2) [OF b] .
  show "repositories s n = Some b \<Longrightarrow> repositories s' n = Some b"
    using t cache_SetDescriptor_frame(3) [OF c] bind_repository_store(2) [OF b] by simp
  show "n \<noteq> repo w \<Longrightarrow> repositories s' n = repositories s n"
    using t cache_SetDescriptor_frame(3) [OF c] bind_repository_store(3) [OF b] by simp
  show "\<exists>a. repository w' = Some a"
    using bind_repository_bound(1) [OF b] by blast
qed

lemma rsimbdcp_SetDescriptor_wf:
  assumes "rsimbdcp_SetDescriptor vs s w d v = (r, w', s')" and "wf_store s" and "view_ok s w"
  shows "wf_store s'" and "view_ok s' w'"
    and "\<exists>a. repository w' = Some a \<and> repositories s' (repo w) = Some a"
proof -
  from assms(1) obtain a s1 r1 s2 where b: "bind_repository s w = (a, w', s1)"
    and c: "cache_SetDescriptor vs s1 a d v = (r1, s2)"
    and p: "(r1 \<noteq> None \<and> r = r1 \<and> s' = s2)
         \<or> (r1 = None \<and> imbdcp_SetDescriptor vs s2 d v = (r, s'))"
    by (rule rsimbdcp_SetDescriptorE)
  have n: "next_free s' = next_free s2" and g: "global s' = global s2"
    and t: "repositories s' = repositories s2"
    using p imbdcp_SetDescriptor_frame [of vs s2 d v r s'] by auto
  have eq: "next_free s' = next_free s1" "global s' = global s1"
    "repositories s' = repositories s1"
    using n g t cache_SetDescriptor_frame [OF c] by simp_all
  show "wf_store s'"
    using wf_store_frame [OF bind_repository_wf(1) [OF b assms(2,3)] eq] .
  show "view_ok s' w'"
    using view_ok_frame [OF bind_repository_wf(2) [OF b assms(2,3)] eq(3)] .
  show "\<exists>a. repository w' = Some a \<and> repositories s' (repo w) = Some a"
    using bind_repository_bound(1) [OF b] bind_repository_wf(3) [OF b assms(2,3)] eq(3)
    by simp
qed

lemma rsimbdcp_SetDescriptor_view_ok:
  assumes "rsimbdcp_SetDescriptor vs s w d v = (r, w', s')" and "view_ok s w2"
  shows "view_ok s' w2"
  using assms(2) rsimbdcp_SetDescriptor_frame(3) [OF assms(1)]
  by (auto simp: view_ok_def)

lemma RepositoryScoped_view_ok:
  assumes "RepositoryScoped vs s name = Inr w"
  shows "view_ok s w" and "repo w = name" and "repository w = repositories s name"
  using assms by (auto simp: RepositoryScoped_def view_ok_def split: option.splits)

lemma wf_system_initial: "wf_system initial"
  by (simp add: wf_system_def initial_def wf_store_def NewInMemoryBlobDescriptorCacheProvider_def)

lemma wf_system_step:
  assumes "wf_system sys"
  shows "wf_system (step vs sys op)"
proof (cases op)
  case (OpRepositoryScoped name)
  then show ?thesis
    using assms RepositoryScoped_view_ok(1) [of vs "provider sys" name]
    by (auto simp: wf_system_def split: sum.splits)
next
  case (OpStat d)
  then show ?thesis using assms by simp
next
  case (OpSetDescriptor d v)
  obtain r s' where set: "imbdcp_SetDescriptor vs (provider sys) d v = (r, s')"
    by (cases "imbdcp_SetDescriptor vs (provider sys) d v")
  have "wf_store s'"
    using wf_store_frame [OF _ imbdcp_SetDescriptor_frame(1-3) [OF set]] assms
    by (simp add: wf_system_def)
  moreover have "view_ok s' w" if "w \<in> set (views sys)" for w
    using view_ok_frame [OF _ imbdcp_SetDescriptor_frame(3) [OF set]] assms that
    by (simp add: wf_system_def)
  ultimately show ?thesis
    using OpSetDescriptor set by (simp add: wf_system_def)
next
  case (OpViewStat i d)
  then show ?thesis using assms by simp
next
  case (OpViewSetDescriptor i d v)
  show ?thesis
  proof (cases "i < length (views sys)")
    case False
    then show ?thesis using OpViewSetDescriptor assms by simp
  next
    case True
    obtain r w' s' where
      set: "rsimbdcp_SetDescriptor vs (provider sys) (views sys ! i) d v = (r, w', s')"
      by (cases "rsimbdcp_SetDescriptor vs (provider sys) (views sys ! i) d v") auto
    have wi: "view_ok (provider sys) (views sys ! i)" and ws: "wf_store (provider sys)"
      using assms True by (simp_all add: wf_system_def)
    have "wf_store s'" and "view_ok s' w'"
      using rsimbdcp_SetDescriptor_wf(1,2) [OF set ws wi] by simp_all
    moreover have "view_ok s' w" if "w \<in> set (views sys)" for w
      using rsimbdcp_SetDescriptor_view_ok [OF set] assms that by (simp add: wf_system_def)
    ultimately show ?thesis
      using OpViewSetDescriptor True set
      by (auto simp: wf_system_def dest!: set_update_subset_insert [THEN subsetD])
  qed
qed

lemma wf_system_run: "wf_system (run vs ops)"
  unfolding run_def
  by (induction ops rule: rev_induct) (simp_all add: wf_system_initial wf_system_step)

lemma rsimbdcp_SetDescriptor_success:
  assumes "rsimbdcp_SetDescriptor vs s w D V = (None, w', s')"
    and "wf_store s" and "view_ok s w"
  shows "\<exists>a. repository w' = Some a \<and> a \<noteq> global s \<and> heap s' a D = Some V"
    and "heap s' (global s) D = (case heap s (global s) D of None \<Rightarrow> Some V | Some V0 \<Rightarrow> Some V0)"
    and "digest_ok vs D"
proof -
  from assms(1) obtain a s1 r1 s2 where b: "bind_repository s w = (a, w', s1)"
    and c: "cache_SetDescriptor vs s1 a D V = (r1, s2)"
    and p: "(r1 \<noteq> None \<and> None = r1 \<and> s' = s2)
         \<or> (r1 = None \<and> imbdcp_SetDescriptor vs s2 D V = (None, s'))"
    by (rule rsimbdcp_SetDescriptorE)
  from p have r1: "r1 = None" and g: "imbdcp_SetDescriptor vs s2 D V = (None, s')"
    by auto
  have ag: "a \<noteq> global s" and wa: "repository w' = Some a"
    using bind_repository_wf(4) [OF b assms(2,3)] bind_repository_bound(1) [OF b] by simp_all
  have g1: "global s1 = global s"
    using bind_repository_store(1) [OF b] .
  have gn: "global s \<noteq> next_free s"
    using assms(2) by (simp add: wf_store_def)
  have h1: "heap s1 (global s) = heap s (global s)"
    using bind_repository_store(4) [OF b gn] .
  show ok: "digest_ok vs D"
    using c r1 by (auto simp: cache_SetDescriptor_eq split: if_splits)
  have s2: "s2 = s1\<lparr>heap := (heap s1)(a := (heap s1 a)(D \<mapsto> V))\<rparr>"
    using c r1 by (auto simp: cache_SetDescriptor_eq split: if_splits)
  have "heap s' a = (heap s1 a)(D \<mapsto> V)"
    using imbdcp_SetDescriptor_frame(4) [OF g, of a] s2 ag g1 by simp
  then show "\<exists>a. repository w' = Some a \<and> a \<noteq> global s \<and> heap s' a D = Some V"
    using wa ag by simp
  show "heap s' (global s) D = (case heap s (global s) D of None \<Rightarrow> Some V | Some V0 \<Rightarrow> Some V0)"
    using g s2 ag g1 h1 ok
    by (auto simp: imbdcp_SetDescriptor_def imbdcp_Stat_eq cache_SetDescriptor_eq
        split: if_splits option.splits)
qed

lemma cache_invariant_empty: "cache_invariant vs Map.empty"
  by (simp add: cache_invariant_def)

lemma cache_invariant_upd:
  assumes "cache_invariant vs m" and "same_algorithm_ok vs k v"
  shows "cache_invariant vs (m(k \<mapsto> v))"
  using assms by (simp add: cache_invariant_def)

lemma same_algorithm_ok_own: "same_algorithm_ok vs (Digest v) v"
  by (simp add: same_algorithm_ok_def)

lemma cache_SetDescriptor_inv:
  assumes "cache_SetDescriptor vs s a d v = (r, s')"
    and "\<And>b. cache_invariant vs (heap s b)" and "same_algorithm_ok vs d v"
  shows "cache_invariant vs (heap s' b)"
  using assms(1) assms(2) [of b] cache_invariant_upd [OF assms(2) [of a] assms(3)]
  by (auto simp: cache_SetDescriptor_eq split: if_splits)

lemma imbdcp_SetDescriptor_inv:
  assumes "imbdcp_SetDescriptor vs s d v = (r, s')"
    and inv: "\<And>b. cache_invariant vs (heap s b)" and ok: "same_algorithm_ok vs d v"
  shows "cache_invariant vs (heap s' b)"
proof -
  have direct: "cache_invariant vs (heap t b)"
    if "cache_SetDescriptor vs s (global s) d v = (r, t)" for r t
    using cache_SetDescriptor_inv [OF that inv ok] .
  have both: "cache_invariant vs (heap t' b)"
    if c1: "cache_SetDescriptor vs s (global s) (Digest v) v = (r1, t)"
      and c2: "cache_SetDescriptor vs t (global s) d v = (r2, t')" for r1 t r2 t'
  proof -
    have "cache_invariant vs (heap t x)" for x
      using cache_SetDescriptor_inv [OF c1 inv same_algorithm_ok_own] .
    then show ?thesis
      using cache_SetDescriptor_inv [OF c2 _ ok] by simp
  qed
  have canon: "cache_invariant vs (heap t b)"
    if "cache_SetDescriptor vs s (global s) (Digest v) v = (r, t)" for r t
    using cache_SetDescriptor_inv [OF that inv same_algorithm_ok_own] .
  show ?thesis
    using assms(1) inv [of b] direct both canon
    by (auto simp: imbdcp_SetDescriptor_def split: sum.splits if_splits option.splits prod.splits)
qed

lemma bind_repository_inv:
  assumes "bind_repository s w = (a, w1, s1)" and "\<And>b. cache_invariant vs (heap s b)"
  shows "cache_invariant vs (heap s1 b)"
  using assms(1) assms(2) [of b]
  by (auto simp: bind_repository_def newMapBlobDescriptorCache_def cache_invariant_empty
      split: option.splits)

lemma rsimbdcp_SetDescriptor_inv:
  assumes "rsimbdcp_SetDescriptor vs s w d v = (r, w', s')"
    and inv: "\<And>b. cache_invariant vs (heap s b)" and ok: "same_algorithm_ok vs d v"
  shows "cache_invariant vs (heap s' b)"
proof -
  from assms(1) obtain a s1 r1 s2 where b: "bind_repository s w = (a, w', s1)"
    and c: "cache_SetDescriptor vs s1 a d v = (r1, s2)"
    and p: "(r1 \<noteq> None \<and> r = r1 \<and> s' = s2)
         \<or> (r1 = None \<and> imbdcp_SetDescriptor vs s2 d v = (r, s'))"
    by (rule rsimbdcp_SetDescriptorE)
  have i1: "cache_invariant vs (heap s1 x)" for x
    using bind_repository_inv [OF b inv] .
  have i2: "cache_invariant vs (heap s2 x)" for x
    using cache_SetDescriptor_inv [OF c i1 ok] .
  from p show ?thesis
  proof
    assume "r1 \<noteq> None \<and> r = r1 \<and> s' = s2"
    then show ?thesis using i2 by simp
  next
    assume "r1 = None \<and> imbdcp_SetDescriptor vs s2 d v = (r, s')"
    then show ?thesis using imbdcp_SetDescriptor_inv [OF _ i2 ok] by blast
  qed
qed

lemma step_inv:
  assumes inv: "\<And>b. cache_invariant vs (heap (provider sys) b)" and ok: "op_respects vs op"
  shows "cache_invariant vs (heap (provider (step vs sys op)) b)"
proof (cases op)
  case (OpRepositoryScoped name)
  then show ?thesis using inv [of b] by (simp split: sum.splits)
next
  case (OpStat d)
  then show ?thesis using inv by simp
next
  case (OpSetDescriptor d v)
  obtain r s' where set: "imbdcp_SetDescriptor vs (provider sys) d v = (r, s')"
    by (cases "imbdcp_SetDescriptor vs (provider sys) d v")
  show ?thesis
    using imbdcp_SetDescriptor_inv [OF set inv] ok OpSetDescriptor set by simp
next
  case (OpViewStat i d)
  then show ?thesis using inv by simp
next
  case (OpViewSetDescriptor i d v)
  obtain r w' s' where
    set: "rsimbdcp_SetDescriptor vs (provider sys) (views sys ! i) d v = (r, w', s')"
    by (cases "rsimbdcp_SetDescriptor vs (provider sys) (views sys ! i) d v") auto
  show ?thesis
    using rsimbdcp_SetDescriptor_inv [OF set inv] ok OpViewSetDescriptor set inv [of b]
    by simp
qed

lemma step_views_length: "length (views sys) \<le> length (views (step vs sys op))"
  by (cases op) (auto split: sum.splits prod.splits)

lemma step_table_mono:
  assumes "repositories (provider sys) name = Some a"
  shows "repositories (provider (step vs sys op)) name = Some a"
proof (cases op)
  case (OpSetDescriptor d v)
  obtain r s' where set: "imbdcp_SetDescriptor vs (provider sys) d v = (r, s')"
    by (cases "imbdcp_SetDescriptor vs (provider sys) d v")
  show ?thesis
    using imbdcp_SetDescriptor_frame(3) [OF set] assms OpSetDescriptor set by simp
next
  case (OpViewSetDescriptor i d v)
  obtain r w' s' where
    set: "rsimbdcp_SetDescriptor vs (provider sys) (views sys ! i) d v = (r, w', s')"
    by (cases "rsimbdcp_SetDescriptor vs (provider sys) (views sys ! i) d v") auto
  show ?thesis
    using rsimbdcp_SetDescriptor_frame(3) [OF set assms] assms OpViewSetDescriptor set by simp
qed (use assms in \<open>auto split: sum.splits\<close>)

lemma step_view_mono:
  assumes "i < length (views sys)" and "repository (views sys ! i) = Some a"
  shows "repository (views (step vs sys op) ! i) = Some a"
proof (cases op)
  case (OpViewSetDescriptor j d v)
  obtain r w' s' where
    set: "rsimbdcp_SetDescriptor vs (provider sys) (views sys ! j) d v = (r, w', s')"
    by (cases "rsimbdcp_SetDescriptor vs (provider sys) (views sys ! j) d v") auto
  then obtain b s1 where b: "bind_repository (provider sys) (views sys ! j) = (b, w', s1)"
    by (auto elim: rsimbdcp_SetDescriptorE)
  have "repository w' = Some a" if "j = i"
    using b assms(2) that by (auto simp: bind_repository_def)
  then show ?thesis
    using assms OpViewSetDescriptor set by (auto simp: nth_list_update)
qed (use assms in \<open>auto split: sum.splits simp: nth_append\<close>)

lemma step_view_set_binds:
  assumes "wf_system sys" and "i < length (views sys)"
  shows "\<exists>a. repository (views (step vs sys (OpViewSetDescriptor i d v)) ! i) = Some a
           \<and> repositories (provider (step vs sys (OpViewSetDescriptor i d v)))
                (repo (views sys ! i)) = Some a"
proof -
  obtain r w' s' where
    set: "rsimbdcp_SetDescriptor vs (provider sys) (views sys ! i) d v = (r, w', s')"
    by (cases "rsimbdcp_SetDescriptor vs (provider sys) (views sys ! i) d v") auto
  have wi: "view_ok (provider sys) (views sys ! i)" and ws: "wf_store (provider sys)"
    using assms by (simp_all add: wf_system_def)
  show ?thesis
    using rsimbdcp_SetDescriptor_wf(3) [OF set ws wi] assms(2) set by simp
qed

lemma step_table_change:
  assumes "repositories (provider (step vs sys op)) name \<noteq> repositories (provider sys) name"
  shows "\<exists>i d v. op = OpViewSetDescriptor i d v \<and> i < length (views sys)
           \<and> repo (views sys ! i) = name \<and> repository (views sys ! i) = None"
proof (cases op)
  case (OpSetDescriptor d v)
  obtain r s' where set: "imbdcp_SetDescriptor vs (provider sys) d v = (r, s')"
    by (cases "imbdcp_SetDescriptor vs (provider sys) d v")
  show ?thesis
    using imbdcp_SetDescriptor_frame(3) [OF set] assms OpSetDescriptor set by simp
next
  case (OpViewSetDescriptor i d v)
  show ?thesis
  proof (cases "i < length (views sys)")
    case False
    then show ?thesis using assms OpViewSetDescriptor by simp
  next
    case True
    obtain r w' s' where
      set: "rsimbdcp_SetDescriptor vs (provider sys) (views sys ! i) d v = (r, w', s')"
      by (cases "rsimbdcp_SetDescriptor vs (provider sys) (views sys ! i) d v") auto
    from set obtain a s1 r1 s2 where b: "bind_repository (provider sys) (views sys ! i) = (a, w', s1)"
      and c: "cache_SetDescriptor vs s1 a d v = (r1, s2)"
      and p: "(r1 \<noteq> None \<and> r = r1 \<and> s' = s2)
         \<or> (r1 = None \<and> imbdcp_SetDescriptor vs s2 d v = (r, s'))"
      by (rule rsimbdcp_SetDescriptorE)
    have "repositories s' = repositories s2"
      using p imbdcp_SetDescriptor_frame(3) [of vs s2 d v r s'] by auto
    then have t: "repositories s' = repositories s1"
      using cache_SetDescriptor_frame(3) [OF c] by simp
    have "repositories s1 name \<noteq> repositories (provider sys) name"
      using assms OpViewSetDescriptor True set t by simp
    then have "repo (views sys ! i) = name \<and> repository (views sys ! i) = None"
      using b by (auto simp: bind_repository_def split: option.splits if_splits)
    then show ?thesis
      using OpViewSetDescriptor True by simp
  qed
qed (use assms in \<open>auto split: sum.splits\<close>)

lemma step_view_change:
  assumes "i < length (views sys)"
    and "repository (views (step vs sys op) ! i) \<noteq> repository (views sys ! i)"
  shows "\<exists>d v. op = OpViewSetDescriptor i d v \<and> repository (views sys ! i) = None"
proof (cases op)
  case (OpViewSetDescriptor j d v)
  obtain r w' s' where
    set: "rsimbdcp_SetDescriptor vs (provider sys) (views sys ! j) d v = (r, w', s')"
    by (cases "rsimbdcp_SetDescriptor vs (provider sys) (views sys ! j) d v") auto
  then obtain b s1 where b: "bind_repository (provider sys) (views sys ! j) = (b, w', s1)"
    by (auto elim: rsimbdcp_SetDescriptorE)
  have ji: "j = i"
    using assms OpViewSetDescriptor set by (auto simp: nth_list_update split: if_splits)
  have "repository (views sys ! i) = None"
  proof (rule ccontr)
    assume "repository (views sys ! i) \<noteq> None"
    then have "w' = views sys ! i"
      using b ji by (auto simp: bind_repository_def)
    then show False
      using assms OpViewSetDescriptor set ji by simp
  qed
  then show ?thesis
    using OpViewSetDescriptor ji by simp
qed (use assms in \<open>auto split: sum.splits simp: nth_append\<close>)

lemma never_targeted_table:
  assumes "repositories (provider sys) name = None" and "never_targeted vs sys ops name"
  shows "repositories (provider (foldl (step vs) sys ops)) name = None"
  using assms
proof (induction ops arbitrary: sys)
  case Nil
  then show ?case by simp
next
  case (Cons op ops)
  have "repositories (provider (step vs sys op)) name = repositories (provider sys) name"
  proof (rule ccontr)
    assume "repositories (provider (step vs sys op)) name \<noteq> repositories (provider sys) name"
    from step_table_change [OF this] have "writes_to sys op name"
      by auto
    then show False
      using Cons.prems(2) by simp
  qed
  then show ?case
    using Cons by simp
qed

lemma never_targeted_never_written:
  assumes "never_targeted vs initial ops name"
  shows "never_written (provider (run vs ops)) name"
  using never_targeted_table [of initial name vs ops] assms
  by (simp add: run_def never_written_def initial_def NewInMemoryBlobDescriptorCacheProvider_def)

lemma sample_validators_sel:
  "digest_ok sample_validators d = sample_digest_ok d"
  "descriptor_ok sample_validators desc = (0 \<le> Size desc \<and> MediaType desc \<noteq> [])"
  "repository_name_ok sample_validators name = (name \<noteq> [])"
  "Algorithm sample_validators d = sample_Algorithm d"
  by (simp_all add: sample_validators_def)

lemmas sample_defs =
  sample_validators_sel sample_digest_ok_def sample_Algorithm_def blob_def
  NewInMemoryBlobDescriptorCacheProvider_def newMapBlobDescriptorCache_def
  validateDigest_def validateDescriptor_def ValidateRepositoryName_def

lemmas call_defs =
  imbdcp_SetDescriptor_def imbdcp_Stat_eq cache_SetDescriptor_eq cache_Stat_eq
  rsimbdcp_SetDescriptor_def rsimbdcp_Stat_def bind_repository_def RepositoryScoped_def
  run_def initial_def

lemma sample_run:
  "views (run sample_validators sample_history)
     = [\<lparr>repo = ''foo/bar'', repository = Some 1\<rparr>, \<lparr>repo = ''foo/baz'', repository = None\<rparr>]"
  "next_free (provider (run sample_validators sample_history)) = 2"
  "global (provider (run sample_validators sample_history)) = 0"
  "repositories (provider (run sample_validators sample_history)) = [''foo/bar'' \<mapsto> 1]"
  "heap (provider (run sample_validators sample_history)) 0 = [''sha256:aa'' \<mapsto> blob ''sha256:aa'' 1]"
  "heap (provider (run sample_validators sample_history)) (Suc 0) = [''sha256:aa'' \<mapsto> blob ''sha256:aa'' 1]"
  by (simp_all add: sample_history_def call_defs sample_defs)

section \<open>Verified properties\<close>

subsection \<open>Global scope\<close>

text \<open>
  C7, as the source has it. For a digest \<open>D\<close> and a descriptor \<open>V\<close> whose digest is
  \<open>D\<close>: when \<open>set(global, D, V)\<close> succeeds, \<open>stat(global, D)\<close> right afterwards returns
  \<open>V\<close> if \<open>D\<close> was unknown to the global cache before the call, and the descriptor
  that was already stored if \<open>D\<close> was known: the call then succeeds without storing.
\<close>

theorem global_set_then_stat:
  assumes "Digest V = D"
    and "imbdcp_SetDescriptor vs s D V = (None, s')"
  shows "imbdcp_Stat vs s' D =
           (case imbdcp_Stat vs s D of Inr V0 \<Rightarrow> Inr V0 | Inl e \<Rightarrow> Inr V)"
  using assms
  by (auto simp: imbdcp_SetDescriptor_def imbdcp_Stat_eq cache_SetDescriptor_eq
      split: if_splits option.splits)

theorem global_set_then_stat_witness:
  "Digest (blob ''sha256:aa'' 1) = ''sha256:aa''
   \<and> fst (imbdcp_SetDescriptor sample_validators NewInMemoryBlobDescriptorCacheProvider
        ''sha256:aa'' (blob ''sha256:aa'' 1)) = None
   \<and> imbdcp_Stat sample_validators NewInMemoryBlobDescriptorCacheProvider ''sha256:aa''
        = Inl ErrBlobUnknown
   \<and> imbdcp_Stat sample_validators
        (snd (imbdcp_SetDescriptor sample_validators NewInMemoryBlobDescriptorCacheProvider
           ''sha256:aa'' (blob ''sha256:aa'' 1))) ''sha256:aa''
        = Inr (blob ''sha256:aa'' 1)"
proof -
  have d: "Digest (blob ''sha256:aa'' 1) = ''sha256:aa''"
    by (simp add: blob_def)
  have ok: "fst (imbdcp_SetDescriptor sample_validators NewInMemoryBlobDescriptorCacheProvider
        ''sha256:aa'' (blob ''sha256:aa'' 1)) = None"
    by (simp add: call_defs sample_defs)
  have unk: "imbdcp_Stat sample_validators NewInMemoryBlobDescriptorCacheProvider ''sha256:aa''
        = Inl ErrBlobUnknown"
    by (simp add: call_defs sample_defs)
  from ok have run: "imbdcp_SetDescriptor sample_validators NewInMemoryBlobDescriptorCacheProvider
        ''sha256:aa'' (blob ''sha256:aa'' 1)
      = (None, snd (imbdcp_SetDescriptor sample_validators NewInMemoryBlobDescriptorCacheProvider
        ''sha256:aa'' (blob ''sha256:aa'' 1)))"
    by (simp add: prod_eq_iff)
  from global_set_then_stat [OF d run] unk d ok show ?thesis
    by simp
qed

text \<open>
  C7 as stated fails on a reachable state in which \<open>D\<close> is already known: after
  \<open>set(global, D, V0)\<close>, the call \<open>set(global, D, V)\<close> with a different valid
  descriptor for \<open>D\<close> succeeds and leaves the store as it was, and \<open>stat(global, D)\<close>
  returns \<open>V0\<close>.
\<close>

theorem global_set_then_stat_counterexample:
  "digest_ok sample_validators ''sha256:aa''
   \<and> validateDescriptor sample_validators (blob ''sha256:aa'' 2) = None
   \<and> Digest (blob ''sha256:aa'' 2) = ''sha256:aa''
   \<and> imbdcp_SetDescriptor sample_validators
        (provider (run sample_validators [OpSetDescriptor ''sha256:aa'' (blob ''sha256:aa'' 1)]))
        ''sha256:aa'' (blob ''sha256:aa'' 2)
      = (None, provider (run sample_validators [OpSetDescriptor ''sha256:aa'' (blob ''sha256:aa'' 1)]))
   \<and> imbdcp_Stat sample_validators
        (provider (run sample_validators [OpSetDescriptor ''sha256:aa'' (blob ''sha256:aa'' 1)]))
        ''sha256:aa'' = Inr (blob ''sha256:aa'' 1)
   \<and> blob ''sha256:aa'' 1 \<noteq> blob ''sha256:aa'' 2"
  by (simp add: call_defs sample_defs)






text \<open>
  C4, as the source has it. No cache checks a descriptor's digest against the key it is
  stored under, so the invariant is the callers' to keep: when every
  \<^verbatim>\<open>SetDescriptor\<close> call of a history passes a digest and a descriptor that satisfy
  it (the descriptor's digest has another algorithm than the digest, or is the digest),
  every entry of every cache, global or per repository, satisfies it.
\<close>

theorem same_algorithm_invariant:
  assumes "\<forall>op \<in> set ops. op_respects vs op"
    and "heap (provider (run vs ops)) a k = Some v"
    and "Algorithm vs (Digest v) = Algorithm vs k"
  shows "Digest v = k"
proof -
  have "cache_invariant vs (heap (provider (run vs ops)) b)" for b
    using assms(1) unfolding run_def
  proof (induction ops arbitrary: b rule: rev_induct)
    case Nil
    then show ?case
      by (simp add: initial_def NewInMemoryBlobDescriptorCacheProvider_def
          newMapBlobDescriptorCache_def cache_invariant_empty)
  next
    case (snoc op ops)
    then show ?case
      using step_inv [of vs "foldl (step vs) initial ops" op b] by simp
  qed
  then show ?thesis
    using assms(2,3) by (auto simp: cache_invariant_def same_algorithm_ok_def)
qed

theorem same_algorithm_invariant_witness:
  "op_respects sample_validators (OpRepositoryScoped ''foo/bar'')
   \<and> op_respects sample_validators (OpViewSetDescriptor 0 ''tarsum:cc'' (blob ''sha256:aa'' 1))
   \<and> heap (provider (run sample_validators
        [OpRepositoryScoped ''foo/bar'',
         OpViewSetDescriptor 0 ''tarsum:cc'' (blob ''sha256:aa'' 1)])) 0 ''sha256:aa''
       = Some (blob ''sha256:aa'' 1)
   \<and> Algorithm sample_validators (Digest (blob ''sha256:aa'' 1))
       = Algorithm sample_validators ''sha256:aa''
   \<and> Digest (blob ''sha256:aa'' 1) = ''sha256:aa''"
proof -
  have r: "\<forall>op \<in> set [OpRepositoryScoped ''foo/bar'',
         OpViewSetDescriptor 0 ''tarsum:cc'' (blob ''sha256:aa'' 1)]. op_respects sample_validators op"
    by (simp add: same_algorithm_ok_def sample_defs)
  have h: "heap (provider (run sample_validators
        [OpRepositoryScoped ''foo/bar'',
         OpViewSetDescriptor 0 ''tarsum:cc'' (blob ''sha256:aa'' 1)])) 0 ''sha256:aa''
       = Some (blob ''sha256:aa'' 1)"
    by (simp add: call_defs sample_defs)
  have al: "Algorithm sample_validators (Digest (blob ''sha256:aa'' 1))
       = Algorithm sample_validators ''sha256:aa''"
    by (simp add: sample_defs)
  from same_algorithm_invariant [OF r h al] r h al show ?thesis
    by simp
qed

text \<open>
  C4 as stated fails: \<open>set(global, sha256:aa, V)\<close> with \<open>V.digest = sha256:bb\<close> on a
  fresh provider stores \<open>V\<close> under \<open>sha256:aa\<close>, an entry whose value has the
  algorithm of its key and another digest.
\<close>

theorem same_algorithm_invariant_counterexample:
  "heap (provider (run sample_validators [OpSetDescriptor ''sha256:aa'' (blob ''sha256:bb'' 1)]))
     (global (provider (run sample_validators [OpSetDescriptor ''sha256:aa'' (blob ''sha256:bb'' 1)])))
     ''sha256:aa'' = Some (blob ''sha256:bb'' 1)
   \<and> Algorithm sample_validators (Digest (blob ''sha256:bb'' 1))
       = Algorithm sample_validators ''sha256:aa''
   \<and> Digest (blob ''sha256:bb'' 1) \<noteq> ''sha256:aa''"
  by (simp add: call_defs sample_defs)

subsection \<open>Repository scope\<close>

text \<open>
  C10. On a fresh provider, when a view stores \<open>V1\<close> and then \<open>V2\<close> under the same
  digest \<open>D\<close> and both calls succeed, the view's \<open>stat(D)\<close> returns \<open>V2\<close> and
  \<open>stat(global, D)\<close> returns \<open>V1\<close>; a further \<open>set(global, D, V3)\<close> succeeds and
  changes nothing.
\<close>

theorem scopes_disagree:
  assumes "RepositoryScoped vs NewInMemoryBlobDescriptorCacheProvider R = Inr w"
    and "rsimbdcp_SetDescriptor vs NewInMemoryBlobDescriptorCacheProvider w D V1 = (None, w1, s1)"
    and "rsimbdcp_SetDescriptor vs s1 w1 D V2 = (None, w2, s2)"
  shows "rsimbdcp_Stat vs s2 w2 D = Inr V2 \<and> imbdcp_Stat vs s2 D = Inr V1
         \<and> imbdcp_SetDescriptor vs s2 D V3 = (None, s2)"
proof -
  let ?fresh = NewInMemoryBlobDescriptorCacheProvider
  have wf0: "wf_store ?fresh"
    using wf_system_initial by (simp add: wf_system_def initial_def)
  have v0: "view_ok ?fresh w"
    using RepositoryScoped_view_ok(1) [OF assms(1)] .
  have wf1: "wf_store s1" and v1: "view_ok s1 w1"
    using rsimbdcp_SetDescriptor_wf(1,2) [OF assms(2) wf0 v0] by simp_all
  have g1: "global s1 = global ?fresh" and g2: "global s2 = global s1"
    using rsimbdcp_SetDescriptor_frame(1) [OF assms(2)]
      rsimbdcp_SetDescriptor_frame(1) [OF assms(3)] by simp_all
  have "heap ?fresh (global ?fresh) D = None"
    by (simp add: NewInMemoryBlobDescriptorCacheProvider_def newMapBlobDescriptorCache_def)
  then have "heap s1 (global s1) D = Some V1"
    using rsimbdcp_SetDescriptor_success(2) [OF assms(2) wf0 v0] g1 by simp
  then have glob: "heap s2 (global s2) D = Some V1"
    using rsimbdcp_SetDescriptor_success(2) [OF assms(3) wf1 v1] g2 by simp
  obtain a where a: "repository w2 = Some a" "heap s2 a D = Some V2"
    using rsimbdcp_SetDescriptor_success(1) [OF assms(3) wf1 v1] by blast
  have ok: "digest_ok vs D"
    using rsimbdcp_SetDescriptor_success(3) [OF assms(3) wf1 v1] .
  have "rsimbdcp_Stat vs s2 w2 D = Inr V2"
    using a ok by (simp add: rsimbdcp_Stat_def cache_Stat_eq)
  moreover have st: "imbdcp_Stat vs s2 D = Inr V1"
    using glob ok by (simp add: imbdcp_Stat_eq)
  moreover have "imbdcp_SetDescriptor vs s2 D V3 = (None, s2)"
    using st by (simp add: imbdcp_SetDescriptor_def)
  ultimately show ?thesis by simp
qed

theorem scopes_disagree_witness:
  "RepositoryScoped sample_validators NewInMemoryBlobDescriptorCacheProvider ''foo/bar''
     = Inr \<lparr>repo = ''foo/bar'', repository = None\<rparr>
   \<and> fst (rsimbdcp_SetDescriptor sample_validators NewInMemoryBlobDescriptorCacheProvider
        \<lparr>repo = ''foo/bar'', repository = None\<rparr> ''sha256:aa'' (blob ''sha256:aa'' 1)) = None
   \<and> fst (rsimbdcp_SetDescriptor sample_validators
        (snd (snd (rsimbdcp_SetDescriptor sample_validators NewInMemoryBlobDescriptorCacheProvider
           \<lparr>repo = ''foo/bar'', repository = None\<rparr> ''sha256:aa'' (blob ''sha256:aa'' 1))))
        (fst (snd (rsimbdcp_SetDescriptor sample_validators NewInMemoryBlobDescriptorCacheProvider
           \<lparr>repo = ''foo/bar'', repository = None\<rparr> ''sha256:aa'' (blob ''sha256:aa'' 1))))
        ''sha256:aa'' (blob ''sha256:aa'' 2)) = None
   \<and> blob ''sha256:aa'' 1 \<noteq> blob ''sha256:aa'' 2
   \<and> rsimbdcp_Stat sample_validators
        (snd (snd (rsimbdcp_SetDescriptor sample_validators
           (snd (snd (rsimbdcp_SetDescriptor sample_validators
              NewInMemoryBlobDescriptorCacheProvider
              \<lparr>repo = ''foo/bar'', repository = None\<rparr> ''sha256:aa'' (blob ''sha256:aa'' 1))))
           (fst (snd (rsimbdcp_SetDescriptor sample_validators
              NewInMemoryBlobDescriptorCacheProvider
              \<lparr>repo = ''foo/bar'', repository = None\<rparr> ''sha256:aa'' (blob ''sha256:aa'' 1))))
           ''sha256:aa'' (blob ''sha256:aa'' 2))))
        (fst (snd (rsimbdcp_SetDescriptor sample_validators
           (snd (snd (rsimbdcp_SetDescriptor sample_validators
              NewInMemoryBlobDescriptorCacheProvider
              \<lparr>repo = ''foo/bar'', repository = None\<rparr> ''sha256:aa'' (blob ''sha256:aa'' 1))))
           (fst (snd (rsimbdcp_SetDescriptor sample_validators
              NewInMemoryBlobDescriptorCacheProvider
              \<lparr>repo = ''foo/bar'', repository = None\<rparr> ''sha256:aa'' (blob ''sha256:aa'' 1))))
           ''sha256:aa'' (blob ''sha256:aa'' 2))))
        ''sha256:aa''
     = Inr (blob ''sha256:aa'' 2)
   \<and> imbdcp_Stat sample_validators
        (snd (snd (rsimbdcp_SetDescriptor sample_validators
           (snd (snd (rsimbdcp_SetDescriptor sample_validators
              NewInMemoryBlobDescriptorCacheProvider
              \<lparr>repo = ''foo/bar'', repository = None\<rparr> ''sha256:aa'' (blob ''sha256:aa'' 1))))
           (fst (snd (rsimbdcp_SetDescriptor sample_validators
              NewInMemoryBlobDescriptorCacheProvider
              \<lparr>repo = ''foo/bar'', repository = None\<rparr> ''sha256:aa'' (blob ''sha256:aa'' 1))))
           ''sha256:aa'' (blob ''sha256:aa'' 2))))
        ''sha256:aa''
     = Inr (blob ''sha256:aa'' 1)"
proof -
  let ?fresh = NewInMemoryBlobDescriptorCacheProvider
  let ?w = "\<lparr>repo = ''foo/bar'', repository = None\<rparr>"
  let ?set1 = "rsimbdcp_SetDescriptor sample_validators ?fresh ?w ''sha256:aa'' (blob ''sha256:aa'' 1)"
  let ?set2 = "rsimbdcp_SetDescriptor sample_validators (snd (snd ?set1)) (fst (snd ?set1))
      ''sha256:aa'' (blob ''sha256:aa'' 2)"
  have scoped: "RepositoryScoped sample_validators ?fresh ''foo/bar'' = Inr ?w"
    by (simp add: RepositoryScoped_def sample_defs)
  have ok1: "fst ?set1 = None"
    by (simp add: call_defs sample_defs)
  have ok2: "fst ?set2 = None"
    by (simp add: call_defs sample_defs)
  have differ: "blob ''sha256:aa'' 1 \<noteq> blob ''sha256:aa'' 2"
    by (simp add: blob_def)
  from ok1 have set1: "?set1 = (None, fst (snd ?set1), snd (snd ?set1))"
    by (simp add: prod_eq_iff)
  from ok2 have set2: "?set2 = (None, fst (snd ?set2), snd (snd ?set2))"
    by (simp add: prod_eq_iff)
  note concl = scopes_disagree [OF scoped set1 set2]
  show ?thesis
    by (intro conjI scoped ok1 ok2 differ concl [THEN conjunct1]
        concl [THEN conjunct2, THEN conjunct1])
qed

text \<open>
  C5. On any store reached from a fresh provider, for a view \<open>w\<close> of repository \<open>R\<close>
  and a digest \<open>D\<close> that no cache holds: when \<open>w.set(D, V)\<close> succeeds, \<open>w.stat(D)\<close>
  and \<open>stat(global, D)\<close> return \<open>V\<close>, and the view of any other repository \<open>R2\<close>
  answers \<open>stat(D)\<close> with \<open>BlobUnknown\<close>.
\<close>

theorem repository_isolation:
  assumes "RepositoryScoped vs (provider (run vs ops)) R = Inr w"
    and "\<forall>a. heap (provider (run vs ops)) a D = None"
    and "rsimbdcp_SetDescriptor vs (provider (run vs ops)) w D V = (None, w', s')"
    and "R2 \<noteq> R"
    and "RepositoryScoped vs s' R2 = Inr w2"
  shows "rsimbdcp_Stat vs s' w' D = Inr V \<and> imbdcp_Stat vs s' D = Inr V
         \<and> rsimbdcp_Stat vs s' w2 D = Inl ErrBlobUnknown"
proof -
  let ?s = "provider (run vs ops)"
  have wf: "wf_store ?s"
    using wf_system_run [of vs ops] by (simp add: wf_system_def)
  have vw: "view_ok ?s w" and rw: "repo w = R"
    using RepositoryScoped_view_ok [OF assms(1)] by simp_all
  from assms(3) obtain a s1 r1 s2 where b: "bind_repository ?s w = (a, w', s1)"
    and c: "cache_SetDescriptor vs s1 a D V = (r1, s2)"
    and p: "(r1 \<noteq> None \<and> None = r1 \<and> s' = s2)
         \<or> (r1 = None \<and> imbdcp_SetDescriptor vs s2 D V = (None, s'))"
    by (rule rsimbdcp_SetDescriptorE)
  from p have r1: "r1 = None" and g: "imbdcp_SetDescriptor vs s2 D V = (None, s')"
    by auto
  have ag: "a \<noteq> global ?s" and ra: "repositories s1 R = Some a" and wa: "repository w' = Some a"
    using bind_repository_wf(3,4) [OF b wf vw] bind_repository_bound(1) [OF b] rw by simp_all
  have g1: "global s1 = global ?s"
    using bind_repository_store(1) [OF b] .
  have fresh1: "heap s1 x D = None" for x
    using b assms(2) by (auto simp: bind_repository_def newMapBlobDescriptorCache_def split: option.splits)
  have ok: "digest_ok vs D" "digest_ok vs (Digest V)" "descriptor_ok vs V"
    and s2: "s2 = s1\<lparr>heap := (heap s1)(a := (heap s1 a)(D \<mapsto> V))\<rparr>"
    using c r1 by (auto simp: cache_SetDescriptor_eq split: if_splits)
  have gD: "heap s' (global ?s) D = Some V"
    using g s2 ag g1 fresh1 ok
    by (auto simp: imbdcp_SetDescriptor_def imbdcp_Stat_eq cache_SetDescriptor_eq
        split: if_splits option.splits)
  have aD: "heap s' a = (heap s1 a)(D \<mapsto> V)"
    using imbdcp_SetDescriptor_frame(4) [OF g, of a] s2 ag g1 by simp
  have other: "heap s' x D = None" if "x \<noteq> a" and "x \<noteq> global ?s" for x
    using imbdcp_SetDescriptor_frame(4) [OF g, of x] s2 g1 fresh1 that by simp
  have gs': "global s' = global ?s" and ts': "repositories s' = repositories s1"
    using imbdcp_SetDescriptor_frame(2,3) [OF g] s2 g1 by simp_all
  have wf1: "wf_store s1"
    using bind_repository_wf(1) [OF b wf vw] .
  have first: "rsimbdcp_Stat vs s' w' D = Inr V"
    using wa aD ok by (simp add: rsimbdcp_Stat_def cache_Stat_eq)
  have second: "imbdcp_Stat vs s' D = Inr V"
    using gD gs' ok by (simp add: imbdcp_Stat_eq)
  have third: "rsimbdcp_Stat vs s' w2 D = Inl ErrBlobUnknown"
  proof (cases "repository w2")
    case None
    then show ?thesis by (simp add: rsimbdcp_Stat_def)
  next
    case (Some x)
    then have x: "repositories s1 R2 = Some x"
      using RepositoryScoped_view_ok(3) [OF assms(5)] ts' by simp
    have "x \<noteq> a"
      using wf_store_inj [OF wf1 x] ra assms(4) by auto
    moreover have "x \<noteq> global ?s"
      using wf_storeD(2) [OF wf1 x] g1 by simp
    ultimately show ?thesis
      using other Some ok by (simp add: rsimbdcp_Stat_def cache_Stat_eq)
  qed
  from first second third show ?thesis by simp
qed

theorem repository_isolation_witness:
  "RepositoryScoped sample_validators (provider (run sample_validators sample_history)) ''foo/baz''
     = Inr \<lparr>repo = ''foo/baz'', repository = None\<rparr>
   \<and> (\<forall>a. heap (provider (run sample_validators sample_history)) a ''sha256:dd'' = None)
   \<and> fst (rsimbdcp_SetDescriptor sample_validators (provider (run sample_validators sample_history))
        \<lparr>repo = ''foo/baz'', repository = None\<rparr> ''sha256:dd'' (blob ''sha256:dd'' 4)) = None
   \<and> ''foo/bar'' \<noteq> ''foo/baz''
   \<and> RepositoryScoped sample_validators
        (snd (snd (rsimbdcp_SetDescriptor sample_validators
           (provider (run sample_validators sample_history))
           \<lparr>repo = ''foo/baz'', repository = None\<rparr> ''sha256:dd'' (blob ''sha256:dd'' 4))))
        ''foo/bar''
     = Inr \<lparr>repo = ''foo/bar'', repository = Some 1\<rparr>
   \<and> rsimbdcp_Stat sample_validators
        (snd (snd (rsimbdcp_SetDescriptor sample_validators
           (provider (run sample_validators sample_history))
           \<lparr>repo = ''foo/baz'', repository = None\<rparr> ''sha256:dd'' (blob ''sha256:dd'' 4))))
        (fst (snd (rsimbdcp_SetDescriptor sample_validators
           (provider (run sample_validators sample_history))
           \<lparr>repo = ''foo/baz'', repository = None\<rparr> ''sha256:dd'' (blob ''sha256:dd'' 4))))
        ''sha256:dd''
     = Inr (blob ''sha256:dd'' 4)
   \<and> imbdcp_Stat sample_validators
        (snd (snd (rsimbdcp_SetDescriptor sample_validators
           (provider (run sample_validators sample_history))
           \<lparr>repo = ''foo/baz'', repository = None\<rparr> ''sha256:dd'' (blob ''sha256:dd'' 4))))
        ''sha256:dd''
     = Inr (blob ''sha256:dd'' 4)
   \<and> rsimbdcp_Stat sample_validators
        (snd (snd (rsimbdcp_SetDescriptor sample_validators
           (provider (run sample_validators sample_history))
           \<lparr>repo = ''foo/baz'', repository = None\<rparr> ''sha256:dd'' (blob ''sha256:dd'' 4))))
        \<lparr>repo = ''foo/bar'', repository = Some 1\<rparr> ''sha256:dd''
     = Inl ErrBlobUnknown"
proof -
  let ?s = "provider (run sample_validators sample_history)"
  let ?w = "\<lparr>repo = ''foo/baz'', repository = None\<rparr>"
  let ?set = "rsimbdcp_SetDescriptor sample_validators ?s ?w ''sha256:dd'' (blob ''sha256:dd'' 4)"
  have scoped: "RepositoryScoped sample_validators ?s ''foo/baz'' = Inr ?w"
    by (simp add: RepositoryScoped_def sample_run sample_defs)
  have fresh: "\<forall>a. heap ?s a ''sha256:dd'' = None"
    by (simp add: sample_history_def call_defs sample_defs)
  have ok: "fst ?set = None"
    by (simp add: rsimbdcp_SetDescriptor_def bind_repository_def cache_SetDescriptor_eq
        imbdcp_SetDescriptor_def imbdcp_Stat_eq sample_run sample_defs)
  then have set: "?set = (None, fst (snd ?set), snd (snd ?set))"
    by (simp add: prod_eq_iff)
  have other: "''foo/bar'' \<noteq> ''foo/baz''"
    by simp
  have scoped2: "RepositoryScoped sample_validators (snd (snd ?set)) ''foo/bar''
     = Inr \<lparr>repo = ''foo/bar'', repository = Some 1\<rparr>"
    by (simp add: rsimbdcp_SetDescriptor_def bind_repository_def cache_SetDescriptor_eq
        imbdcp_SetDescriptor_def imbdcp_Stat_eq RepositoryScoped_def sample_run sample_defs)
  note concl = repository_isolation [of sample_validators sample_history "''foo/baz''" ?w
      "''sha256:dd''" "blob ''sha256:dd'' 4" "fst (snd ?set)" "snd (snd ?set)" "''foo/bar''"
      "\<lparr>repo = ''foo/bar'', repository = Some 1\<rparr>", OF scoped fresh set other scoped2]
  show ?thesis
    by (intro conjI scoped fresh ok other scoped2 concl [THEN conjunct1]
        concl [THEN conjunct2, THEN conjunct1] concl [THEN conjunct2, THEN conjunct2])
qed

text \<open>
  C8. For a well-formed repository name \<open>R\<close> that has never been written to and a
  well-formed digest \<open>D\<close>, \<^verbatim>\<open>RepositoryScoped\<close> returns a view of \<open>R\<close>, the view's
  \<open>stat(D)\<close> fails with \<open>BlobUnknown\<close>, and obtaining the view leaves the store as it
  was: no cache is allocated. The hypothesis \<open>never_written\<close> holds after every history
  that makes no \<^verbatim>\<open>SetDescriptor\<close> call on a view of \<open>R\<close>
  (\<open>never_targeted_never_written\<close>).
\<close>

theorem read_before_write:
  assumes "repository_name_ok vs R" and "never_written s R" and "digest_ok vs D"
  shows "(\<exists>w. RepositoryScoped vs s R = Inr w \<and> repo w = R
              \<and> rsimbdcp_Stat vs s w D = Inl ErrBlobUnknown)
         \<and> provider (step vs sys (OpRepositoryScoped R)) = provider sys"
proof -
  have "RepositoryScoped vs s R = Inr \<lparr>repo = R, repository = repositories s R\<rparr>"
    using assms(1) by (simp add: RepositoryScoped_def ValidateRepositoryName_def)
  moreover have "rsimbdcp_Stat vs s \<lparr>repo = R, repository = repositories s R\<rparr> D
      = Inl ErrBlobUnknown"
    using assms(2,3)
    by (auto simp: rsimbdcp_Stat_def cache_Stat_eq never_written_def split: option.splits)
  moreover have "provider (step vs sys (OpRepositoryScoped R)) = provider sys"
    by (simp split: sum.splits)
  ultimately show ?thesis
    by simp
qed

theorem read_before_write_witness:
  "repository_name_ok sample_validators ''foo/baz''
   \<and> never_written (provider (run sample_validators sample_history)) ''foo/baz''
   \<and> digest_ok sample_validators ''sha256:aa''
   \<and> (\<exists>w. RepositoryScoped sample_validators (provider (run sample_validators sample_history))
               ''foo/baz'' = Inr w
          \<and> repo w = ''foo/baz''
          \<and> rsimbdcp_Stat sample_validators (provider (run sample_validators sample_history))
               w ''sha256:aa'' = Inl ErrBlobUnknown)
   \<and> imbdcp_Stat sample_validators (provider (run sample_validators sample_history))
        ''sha256:aa'' = Inr (blob ''sha256:aa'' 1)"
proof -
  have name: "repository_name_ok sample_validators ''foo/baz''"
    and dig: "digest_ok sample_validators ''sha256:aa''"
    by (simp_all add: sample_defs)
  have "never_targeted sample_validators initial sample_history ''foo/baz''"
    by (simp add: sample_history_def initial_def call_defs sample_defs)
  then have never: "never_written (provider (run sample_validators sample_history)) ''foo/baz''"
    by (rule never_targeted_never_written)
  have glob: "imbdcp_Stat sample_validators (provider (run sample_validators sample_history))
        ''sha256:aa'' = Inr (blob ''sha256:aa'' 1)"
    using dig by (simp add: imbdcp_Stat_eq sample_run)
  show ?thesis
    by (intro conjI name never dig glob
        read_before_write [OF name never dig, of initial, THEN conjunct1])
qed

text \<open>
  C9. A view obtained for \<open>R\<close> while the provider's table had no entry for \<open>R\<close> keeps
  a \<^verbatim>\<open>nil\<close> pointer: its \<open>stat\<close> answers \<open>BlobUnknown\<close> for every digest on every
  later store, whatever other views have stored for \<open>R\<close> in the meantime. When the view
  itself calls \<^verbatim>\<open>SetDescriptor\<close> and the table by then has a cache for \<open>R\<close>, the view
  adopts that cache, nothing is allocated, and its \<open>stat\<close> reads that cache from then
  on.
\<close>

theorem stale_view:
  assumes "repositories s R = None"
    and "RepositoryScoped vs s R = Inr w"
  shows "rsimbdcp_Stat vs s' w D = Inl ErrBlobUnknown
         \<and> (repositories s' R = Some a \<and> rsimbdcp_SetDescriptor vs s' w D2 V2 = (r, w', s'')
              \<longrightarrow> repository w' = Some a \<and> repositories s'' = repositories s'
                  \<and> next_free s'' = next_free s'
                  \<and> rsimbdcp_Stat vs s'' w' D = cache_Stat vs s'' a D)"
proof -
  have w: "repo w = R" "repository w = None"
    using RepositoryScoped_view_ok(2,3) [OF assms(2)] assms(1) by simp_all
  have first: "rsimbdcp_Stat vs s' w D = Inl ErrBlobUnknown"
    using w by (simp add: rsimbdcp_Stat_def)
  have second: "repository w' = Some a \<and> repositories s'' = repositories s'
                  \<and> next_free s'' = next_free s'
                  \<and> rsimbdcp_Stat vs s'' w' D = cache_Stat vs s'' a D"
    if t: "repositories s' R = Some a"
      and set: "rsimbdcp_SetDescriptor vs s' w D2 V2 = (r, w', s'')"
  proof -
    from set obtain a0 s1 r1 s2 where b: "bind_repository s' w = (a0, w', s1)"
      and c: "cache_SetDescriptor vs s1 a0 D2 V2 = (r1, s2)"
      and p: "(r1 \<noteq> None \<and> r = r1 \<and> s'' = s2)
         \<or> (r1 = None \<and> imbdcp_SetDescriptor vs s2 D2 V2 = (r, s''))"
      by (rule rsimbdcp_SetDescriptorE)
    have b': "a0 = a" "s1 = s'" "repository w' = Some a"
      using b w t by (auto simp: bind_repository_def)
    have "repositories s'' = repositories s2" "next_free s'' = next_free s2"
      using p imbdcp_SetDescriptor_frame(1,3) [of vs s2 D2 V2 r s''] by auto
    then have "repositories s'' = repositories s'" "next_free s'' = next_free s'"
      using cache_SetDescriptor_frame(1,3) [OF c] b' by simp_all
    then show ?thesis
      using b' by (simp add: rsimbdcp_Stat_def)
  qed
  from first second show ?thesis by blast
qed

theorem stale_view_witness:
  "repositories NewInMemoryBlobDescriptorCacheProvider ''foo/bar'' = None
   \<and> RepositoryScoped sample_validators NewInMemoryBlobDescriptorCacheProvider ''foo/bar''
       = Inr \<lparr>repo = ''foo/bar'', repository = None\<rparr>
   \<and> rsimbdcp_Stat sample_validators (provider (run sample_validators sample_history))
        (views (run sample_validators sample_history) ! 0) ''sha256:aa''
       = Inr (blob ''sha256:aa'' 1)
   \<and> rsimbdcp_Stat sample_validators (provider (run sample_validators sample_history))
        \<lparr>repo = ''foo/bar'', repository = None\<rparr> ''sha256:aa''
       = Inl ErrBlobUnknown
   \<and> repositories (provider (run sample_validators sample_history)) ''foo/bar'' = Some 1
   \<and> repository (fst (snd (rsimbdcp_SetDescriptor sample_validators
        (provider (run sample_validators sample_history))
        \<lparr>repo = ''foo/bar'', repository = None\<rparr> ''sha256:bb'' (blob ''sha256:bb'' 2))))
       = Some 1
   \<and> next_free (snd (snd (rsimbdcp_SetDescriptor sample_validators
        (provider (run sample_validators sample_history))
        \<lparr>repo = ''foo/bar'', repository = None\<rparr> ''sha256:bb'' (blob ''sha256:bb'' 2))))
       = next_free (provider (run sample_validators sample_history))
   \<and> rsimbdcp_Stat sample_validators
        (snd (snd (rsimbdcp_SetDescriptor sample_validators
           (provider (run sample_validators sample_history))
           \<lparr>repo = ''foo/bar'', repository = None\<rparr> ''sha256:bb'' (blob ''sha256:bb'' 2))))
        (fst (snd (rsimbdcp_SetDescriptor sample_validators
           (provider (run sample_validators sample_history))
           \<lparr>repo = ''foo/bar'', repository = None\<rparr> ''sha256:bb'' (blob ''sha256:bb'' 2))))
        ''sha256:aa''
       = Inr (blob ''sha256:aa'' 1)"
proof -
  let ?fresh = NewInMemoryBlobDescriptorCacheProvider
  let ?s = "provider (run sample_validators sample_history)"
  let ?w = "\<lparr>repo = ''foo/bar'', repository = None\<rparr>"
  let ?set = "rsimbdcp_SetDescriptor sample_validators ?s ?w ''sha256:bb'' (blob ''sha256:bb'' 2)"
  have none: "repositories ?fresh ''foo/bar'' = None"
    by (simp add: sample_defs)
  have scoped: "RepositoryScoped sample_validators ?fresh ''foo/bar'' = Inr ?w"
    by (simp add: RepositoryScoped_def sample_defs)
  have other: "rsimbdcp_Stat sample_validators ?s (views (run sample_validators sample_history) ! 0)
      ''sha256:aa'' = Inr (blob ''sha256:aa'' 1)"
    by (simp add: rsimbdcp_Stat_def cache_Stat_eq sample_run sample_defs)
  have table: "repositories ?s ''foo/bar'' = Some 1"
    by (simp add: sample_run)
  have set: "?set = (fst ?set, fst (snd ?set), snd (snd ?set))"
    by simp
  note concl = stale_view [of ?fresh "''foo/bar''" sample_validators ?w ?s "''sha256:aa''" 1
      "''sha256:bb''" "blob ''sha256:bb'' 2" "fst ?set" "fst (snd ?set)" "snd (snd ?set)",
      OF none scoped]
  note adopt = concl [THEN conjunct2, THEN mp, OF conjI [OF table set]]
  have unchanged: "heap (snd (snd ?set)) 1 ''sha256:aa'' = Some (blob ''sha256:aa'' 1)"
    by (simp add: rsimbdcp_SetDescriptor_def bind_repository_def cache_SetDescriptor_eq
        imbdcp_SetDescriptor_def imbdcp_Stat_eq sample_run sample_defs)
  have last: "rsimbdcp_Stat sample_validators (snd (snd ?set)) (fst (snd ?set)) ''sha256:aa''
       = Inr (blob ''sha256:aa'' 1)"
    using adopt [THEN conjunct2, THEN conjunct2, THEN conjunct2] unchanged
    by (simp add: cache_Stat_eq sample_defs)
  show ?thesis
    by (intro conjI none scoped other concl [THEN conjunct1] table adopt [THEN conjunct1]
        adopt [THEN conjunct2, THEN conjunct2, THEN conjunct1] last)
qed

text \<open>
  C2, as the source has it. The view's \<^verbatim>\<open>SetDescriptor\<close> binds the slot before it
  validates anything. For every history \<open>ops\<close> and every next operation \<open>op\<close>: an entry
  of the provider's table and a bound view stay as they are (once bound, never unbound);
  after a \<^verbatim>\<open>SetDescriptor\<close> on a view, whether it succeeds or fails, the view is bound
  and the table holds the same cache for the view's repository; and the table's entry
  for a name, and a view's slot, change only through a \<^verbatim>\<open>SetDescriptor\<close> on an
  unbound view (of that name, resp. that view).
\<close>

theorem repository_slot_binding:
  "(\<forall>name a. repositories (provider (run vs ops)) name = Some a
       \<longrightarrow> repositories (provider (step vs (run vs ops) op)) name = Some a)
   \<and> (\<forall>i a. i < length (views (run vs ops)) \<and> repository (views (run vs ops) ! i) = Some a
       \<longrightarrow> repository (views (step vs (run vs ops) op) ! i) = Some a)
   \<and> (\<forall>i D V. op = OpViewSetDescriptor i D V \<and> i < length (views (run vs ops))
       \<longrightarrow> (\<exists>a. repository (views (step vs (run vs ops) op) ! i) = Some a
              \<and> repositories (provider (step vs (run vs ops) op))
                   (repo (views (run vs ops) ! i)) = Some a))
   \<and> (\<forall>name. repositories (provider (step vs (run vs ops) op)) name
                \<noteq> repositories (provider (run vs ops)) name
       \<longrightarrow> (\<exists>i D V. op = OpViewSetDescriptor i D V \<and> i < length (views (run vs ops))
              \<and> repo (views (run vs ops) ! i) = name
              \<and> repository (views (run vs ops) ! i) = None))
   \<and> (\<forall>i. i < length (views (run vs ops))
            \<and> repository (views (step vs (run vs ops) op) ! i)
                \<noteq> repository (views (run vs ops) ! i)
       \<longrightarrow> (\<exists>D V. op = OpViewSetDescriptor i D V
              \<and> repository (views (run vs ops) ! i) = None))"
proof (intro conjI allI impI)
  fix name a
  assume "repositories (provider (run vs ops)) name = Some a"
  then show "repositories (provider (step vs (run vs ops) op)) name = Some a"
    by (rule step_table_mono)
next
  fix i a
  assume "i < length (views (run vs ops)) \<and> repository (views (run vs ops) ! i) = Some a"
  then show "repository (views (step vs (run vs ops) op) ! i) = Some a"
    using step_view_mono by blast
next
  fix i D V
  assume "op = OpViewSetDescriptor i D V \<and> i < length (views (run vs ops))"
  then show "\<exists>a. repository (views (step vs (run vs ops) op) ! i) = Some a
              \<and> repositories (provider (step vs (run vs ops) op))
                   (repo (views (run vs ops) ! i)) = Some a"
    using step_view_set_binds [of "run vs ops" i vs D V] wf_system_run [of vs ops] by simp
next
  fix name
  assume "repositories (provider (step vs (run vs ops) op)) name
                \<noteq> repositories (provider (run vs ops)) name"
  then show "\<exists>i D V. op = OpViewSetDescriptor i D V \<and> i < length (views (run vs ops))
              \<and> repo (views (run vs ops) ! i) = name
              \<and> repository (views (run vs ops) ! i) = None"
    by (rule step_table_change)
next
  fix i
  assume "i < length (views (run vs ops))
            \<and> repository (views (step vs (run vs ops) op) ! i)
                \<noteq> repository (views (run vs ops) ! i)"
  then show "\<exists>D V. op = OpViewSetDescriptor i D V
              \<and> repository (views (run vs ops) ! i) = None"
    using step_view_change by blast
qed

theorem repository_slot_binding_witness:
  "repositories (provider (run sample_validators sample_history)) ''foo/bar'' = Some 1
   \<and> repositories (provider (step sample_validators (run sample_validators sample_history)
         (OpViewSetDescriptor 1 ''bogus'' (blob ''sha256:aa'' 1)))) ''foo/bar'' = Some 1
   \<and> 0 < length (views (run sample_validators sample_history))
   \<and> repository (views (run sample_validators sample_history) ! 0) = Some 1
   \<and> repository (views (step sample_validators (run sample_validators sample_history)
         (OpViewSetDescriptor 1 ''bogus'' (blob ''sha256:aa'' 1))) ! 0) = Some 1
   \<and> 1 < length (views (run sample_validators sample_history))
   \<and> repo (views (run sample_validators sample_history) ! 1) = ''foo/baz''
   \<and> repository (views (run sample_validators sample_history) ! 1) = None
   \<and> repositories (provider (run sample_validators sample_history)) ''foo/baz'' = None
   \<and> (\<exists>a. repository (views (step sample_validators (run sample_validators sample_history)
               (OpViewSetDescriptor 1 ''bogus'' (blob ''sha256:aa'' 1))) ! 1) = Some a
          \<and> repositories (provider (step sample_validators (run sample_validators sample_history)
               (OpViewSetDescriptor 1 ''bogus'' (blob ''sha256:aa'' 1)))) ''foo/baz'' = Some a)"
proof -
  let ?sys = "run sample_validators sample_history"
  let ?op = "OpViewSetDescriptor 1 ''bogus'' (blob ''sha256:aa'' 1)"
  have before: "repositories (provider ?sys) ''foo/bar'' = Some 1"
    "0 < length (views ?sys)" "repository (views ?sys ! 0) = Some 1"
    "1 < length (views ?sys)" "repo (views ?sys ! 1) = ''foo/baz''"
    "repository (views ?sys ! 1) = None" "repositories (provider ?sys) ''foo/baz'' = None"
    by (simp_all add: sample_run)
  from repository_slot_binding [of sample_validators sample_history ?op] before
  show ?thesis
    by (auto simp del: step.simps)
qed

text \<open>
  C2 as stated fails: on a fresh provider, a view for \<open>foo/bar\<close> whose
  \<^verbatim>\<open>SetDescriptor\<close> is given a malformed digest fails with \<open>InvalidDigest\<close>, and
  yet a cache has been allocated and registered for \<open>foo/bar\<close> and the view is bound
  to it.
\<close>

theorem repository_slot_binding_counterexample:
  "RepositoryScoped sample_validators NewInMemoryBlobDescriptorCacheProvider ''foo/bar''
     = Inr \<lparr>repo = ''foo/bar'', repository = None\<rparr>
   \<and> repositories NewInMemoryBlobDescriptorCacheProvider ''foo/bar'' = None
   \<and> next_free NewInMemoryBlobDescriptorCacheProvider = 1
   \<and> validateDigest sample_validators ''bogus'' = Some ErrInvalidDigest
   \<and> fst (rsimbdcp_SetDescriptor sample_validators NewInMemoryBlobDescriptorCacheProvider
        \<lparr>repo = ''foo/bar'', repository = None\<rparr> ''bogus'' (blob ''sha256:aa'' 1))
      = Some ErrInvalidDigest
   \<and> repository (fst (snd (rsimbdcp_SetDescriptor sample_validators
        NewInMemoryBlobDescriptorCacheProvider
        \<lparr>repo = ''foo/bar'', repository = None\<rparr> ''bogus'' (blob ''sha256:aa'' 1)))) = Some 1
   \<and> repositories (snd (snd (rsimbdcp_SetDescriptor sample_validators
        NewInMemoryBlobDescriptorCacheProvider
        \<lparr>repo = ''foo/bar'', repository = None\<rparr> ''bogus'' (blob ''sha256:aa'' 1))))
        ''foo/bar'' = Some 1
   \<and> next_free (snd (snd (rsimbdcp_SetDescriptor sample_validators
        NewInMemoryBlobDescriptorCacheProvider
        \<lparr>repo = ''foo/bar'', repository = None\<rparr> ''bogus'' (blob ''sha256:aa'' 1)))) = 2"
  by (simp add: call_defs sample_defs)




end
